theory Spec2Isabelle
  imports Main
begin

unbundle bit_operations_syntax

section \<open>Python values and exceptions\<close>

text \<open>
  The program is Python 3: its integers are unbounded (\<open>int\<close>), a packet is a list of
  integers, a firmware line decodes to a byte string (a list of integers between 0 and 255).
  Every exception the code can raise is a value of \<open>error\<close>; the four \<open>assert\<close>
  statements of the source are told apart by the argument of \<open>AssertionError\<close>.
  A method is a function from the object to either the exception it raises (\<open>Inl\<close>) or its
  result with the object as it leaves it (\<open>Inr\<close>); none of these exceptions is caught, so
  the state an object is left in by a raise is never read and is not part of the model.
\<close>

datatype assertion =
    PayloadLength    \<comment> \<open>\<open>assert data_length <= (64 - 7)\<close> in \<open>_make_packet\<close>\<close>
  | StartMarker      \<comment> \<open>\<open>assert sop == 0x01\<close> in \<open>_parse_response\<close>\<close>
  | EndMarker        \<comment> \<open>\<open>assert eop == 0x17\<close> in \<open>_parse_response\<close>\<close>
  | LineChecksum     \<comment> \<open>\<open>assert checksum == checksum_calculated\<close> in \<open>Cyacd.parse\<close>\<close>

datatype error =
    AssertionError assertion
  | KeyError int
  | IndexError
  | ValueError       \<comment> \<open>\<open>binascii.Error\<close>, a subclass of \<open>ValueError\<close>\<close>
  | Stalled          \<comment> \<open>a blocking read that never returns\<close>

definition err_bind :: "error + 'a \<Rightarrow> ('a \<Rightarrow> error + 'b) \<Rightarrow> error + 'b" where
  "err_bind m f = (case m of Inl e \<Rightarrow> Inl e | Inr v \<Rightarrow> f v)"

text \<open>\<open>xs[i]\<close>: a negative index counts from the end, an index out of range raises.\<close>

definition py_index :: "'a list \<Rightarrow> int \<Rightarrow> error + 'a" where
  "py_index xs i =
     (let n = int (length xs);
          j = (if i < 0 then i + n else i)
      in if j < 0 \<or> n \<le> j then Inl IndexError else Inr (xs ! nat j))"

text \<open>\<open>xs[a:b]\<close>: each bound is counted from the end when negative and clipped to the list.\<close>

definition py_bound :: "int \<Rightarrow> int \<Rightarrow> int" where
  "py_bound n i = (if i < 0 then max (i + n) 0 else min i n)"

definition py_slice :: "'a list \<Rightarrow> int \<Rightarrow> int \<Rightarrow> 'a list" where
  "py_slice xs a b =
     (let n = int (length xs);
          lo = py_bound n a;
          hi = py_bound n b
      in take (nat (hi - lo)) (drop (nat lo) xs))"

text \<open>\<open>range(a, b)\<close> is the interval \<open>[a..b - 1]\<close>, empty when \<open>b \<le> a\<close>.\<close>

definition py_range :: "int \<Rightarrow> int \<Rightarrow> int list" where
  "py_range a b = [a..b - 1]"

section \<open>The packet codec of class Bootloader\<close>

definition MAX_DATA_LENGTH :: int where
  "MAX_DATA_LENGTH = 64 - 7 - 9"

definition STATUSES :: "int \<rightharpoonup> string" where
  "STATUSES = map_of
     [(0x00, ''CYRET_SUCCESS''),
      (0x03, ''BOOTLOADER_ERR_LENGTH''),
      (0x04, ''BOOTLOADER_ERR_DATA''),
      (0x05, ''BOOTLOADER_ERR_CMD''),
      (0x08, ''BOOTLOADER_ERR_CHECKSUM''),
      (0x09, ''BOOTLOADER_ERR_ARRAY''),
      (0x0a, ''BOOTLOADER_ERR_ROW''),
      (0x0c, ''BOOTLOADER_ERR_APP''),
      (0x0d, ''BOOTLOADER_ERR_ACTIVE''),
      (0x0e, ''BOOTLOADER_ERR_CALLBACK''),
      (0x0f, ''BOOTLOADER_ERR_UNK'')]"

text \<open>
  \<open>Bootloader._checksum\<close>: the loop adds every byte to an accumulator that starts at 0;
  the result is \<open>(~checksum + 1) & 0xffff\<close>.
\<close>

definition Bootloader_checksum :: "int list \<Rightarrow> int" where
  "Bootloader_checksum data =
     (let checksum = fold (\<lambda>byte checksum. checksum + byte) data 0
      in (NOT checksum + 1) AND 0xffff)"

text \<open>\<open>Bootloader._make_packet\<close>.\<close>

definition make_packet :: "int \<Rightarrow> int list \<Rightarrow> error + int list" where
  "make_packet command data =
     (let packet = [0x01];
          packet = packet @ [command];
          data_length = int (length data)
      in if \<not> data_length \<le> 64 - 7 then Inl (AssertionError PayloadLength)
         else
           let packet = packet @ [data_length AND 0xff];
               packet = packet @ [drop_bit 8 data_length];
               packet = packet @ data;
               checksum = Bootloader_checksum packet;
               packet = packet @ [checksum AND 0xff];
               packet = packet @ [drop_bit 8 checksum];
               packet = packet @ [0x17]
           in Inr packet)"

text \<open>
  The response dictionary; its key \<open>"data"\<close> is the field \<open>payload\<close> here, since
  \<open>data\<close> names the argument of the methods.
\<close>

record response =
  status :: string
  payload :: "int list"
  checksum_ok :: bool

text \<open>
  \<open>Bootloader._parse_response\<close>. The dictionary starts with the status
  \<open>BOOTLOADER_ERR_UNK\<close>, no data and \<open>checksum_ok = False\<close>; the status is then looked up
  in \<open>STATUSES\<close> with \<open>[]\<close>, which raises \<open>KeyError\<close> on a code that is not a key.
\<close>

definition parse_response :: "int list \<Rightarrow> error + response" where
  "parse_response response_data =
     (let response = \<lparr>status = ''BOOTLOADER_ERR_UNK'', payload = [], checksum_ok = False\<rparr>
      in err_bind (py_index response_data 0) (\<lambda>sop.
         if sop \<noteq> 0x01 then Inl (AssertionError StartMarker) else
         err_bind (py_index response_data 1) (\<lambda>code.
         case STATUSES code of
           None \<Rightarrow> Inl (KeyError code)
         | Some name \<Rightarrow>
         let response = response\<lparr>status := name\<rparr> in
         err_bind (py_index response_data 3) (\<lambda>hi.
         err_bind (py_index response_data 2) (\<lambda>lo.
         let data_length = push_bit 8 hi OR lo;
             response = (if data_length > 0
                         then response\<lparr>payload := py_slice response_data 4 (4 + data_length)\<rparr>
                         else response) in
         err_bind (py_index response_data (4 + data_length)) (\<lambda>checksum_received.
         err_bind (py_index response_data (4 + data_length + 1)) (\<lambda>high.
         let checksum_received = checksum_received OR push_bit 8 high;
             checksum_calculated = Bootloader_checksum (py_slice response_data 0 (4 + data_length));
             response = response\<lparr>checksum_ok := (checksum_calculated = checksum_received)\<rparr> in
         err_bind (py_index response_data (4 + data_length + 2)) (\<lambda>eop.
         if eop \<noteq> 0x17 then Inl (AssertionError EndMarker) else
         Inr response))))))))"

section \<open>The transport\<close>

text \<open>
  Modelled from the spec: the transport (\<open>hid.device\<close>, an external library) is not part
  of the repository. The spec describes it as a single blocking write and a single blocking
  read of a fixed-size buffer. The model keeps the log of the packets written and the queue
  of the frames the device will answer with; a read returns at most the requested number of
  bytes of the next frame, and a read on an empty queue never returns.
\<close>

record hid_device =
  written :: "int list list"
  pending :: "int list list"

definition hid_write :: "hid_device \<Rightarrow> int list \<Rightarrow> hid_device" where
  "hid_write d packet = d\<lparr>written := written d @ [packet]\<rparr>"

definition hid_read :: "hid_device \<Rightarrow> nat \<Rightarrow> error + int list \<times> hid_device" where
  "hid_read d n =
     (case pending d of
        [] \<Rightarrow> Inl Stalled
      | frame # rest \<Rightarrow> Inr (take n frame, d\<lparr>pending := rest\<rparr>))"

section \<open>The bootloader session\<close>

text \<open>
  The fields of a \<open>Bootloader\<close> object. The class keeps no connection phase: the
  transport handle and the three identity fields are all its state.
\<close>

record bootloader =
  device :: hid_device
  jtag_id :: "int option"
  device_revision :: "int option"
  bootloader_revision :: "int list option"

text \<open>\<open>Bootloader.__init__\<close>, once the device \<open>self._device\<close> has been opened.\<close>

definition Bootloader_init :: "hid_device \<Rightarrow> bootloader" where
  "Bootloader_init d =
     \<lparr>device = d, jtag_id = None, device_revision = None, bootloader_revision = None\<rparr>"

definition send_command :: "bootloader \<Rightarrow> int \<Rightarrow> int list \<Rightarrow> error + response \<times> bootloader" where
  "send_command self command data =
     err_bind (make_packet command data) (\<lambda>packet.
     let self = self\<lparr>device := hid_write (device self) packet\<rparr> in
     err_bind (hid_read (device self) 64) (\<lambda>(response_data, d).
     let self = self\<lparr>device := d\<rparr> in
     err_bind (parse_response response_data) (\<lambda>response.
     Inr (response, self))))"

text \<open>
  \<open>Bootloader.enter_bootloader\<close>. The source assigns \<open>jtag_id\<close> byte by byte; the model
  reads the five bytes in the same order and assigns once, which differs only in the fields a
  raised \<open>IndexError\<close> would leave behind.
\<close>

definition enter_bootloader :: "bootloader \<Rightarrow> error + bool \<times> bootloader" where
  "enter_bootloader self =
     err_bind (send_command self 0x38 []) (\<lambda>(response, self).
     if checksum_ok response \<and> status response = ''CYRET_SUCCESS'' then
       err_bind (py_index (payload response) 0) (\<lambda>b0.
       err_bind (py_index (payload response) 1) (\<lambda>b1.
       err_bind (py_index (payload response) 2) (\<lambda>b2.
       err_bind (py_index (payload response) 3) (\<lambda>b3.
       err_bind (py_index (payload response) 4) (\<lambda>b4.
       Inr (True,
            self\<lparr>jtag_id := Some (((b0 OR push_bit 8 b1) OR push_bit 16 b2) OR push_bit 24 b3),
                 device_revision := Some b4,
                 bootloader_revision := Some (rev (py_slice (payload response) 5 8))\<rparr>))))))
     else Inr (False, self))"

definition program_row :: "bootloader \<Rightarrow> int \<Rightarrow> int \<Rightarrow> int list \<Rightarrow> error + bool \<times> bootloader" where
  "program_row self array_id row_number data =
     (let arguments = [array_id, row_number AND 0xff, drop_bit 8 row_number] in
      err_bind (send_command self 0x39 (arguments @ data)) (\<lambda>(response, self).
      if checksum_ok response \<and> status response = ''CYRET_SUCCESS''
      then Inr (True, self) else Inr (False, self)))"

definition erase_row :: "bootloader \<Rightarrow> int \<Rightarrow> int \<Rightarrow> error + bool \<times> bootloader" where
  "erase_row self array_id row_number =
     (let arguments = [array_id, row_number AND 0xff, drop_bit 8 row_number] in
      err_bind (send_command self 0x34 arguments) (\<lambda>(response, self).
      if checksum_ok response \<and> status response = ''CYRET_SUCCESS''
      then Inr (True, self) else Inr (False, self)))"

definition send_data :: "bootloader \<Rightarrow> int list \<Rightarrow> error + bool \<times> bootloader" where
  "send_data self data =
     err_bind (send_command self 0x37 data) (\<lambda>(response, self).
     if checksum_ok response \<and> status response = ''CYRET_SUCCESS''
     then Inr (True, self) else Inr (False, self))"

definition exit_bootloader :: "bootloader \<Rightarrow> error + bootloader" where
  "exit_bootloader self =
     err_bind (make_packet 0x3b []) (\<lambda>packet.
     Inr (self\<lparr>device := hid_write (device self) packet\<rparr>))"

text \<open>What a method returns to its caller (or the exception it raises), without the state.\<close>

definition returned :: "error + 'a \<times> 's \<Rightarrow> error + 'a" where
  "returned m = (case m of Inl e \<Rightarrow> Inl e | Inr (v, s) \<Rightarrow> Inr v)"

section \<open>Flashing\<close>

text \<open>
  A \<open>for\<close> loop whose body may raise: the state is threaded through the items in order and
  the first exception ends the loop.
\<close>

fun for_each :: "('s \<Rightarrow> 'a \<Rightarrow> error + 's) \<Rightarrow> 's \<Rightarrow> 'a list \<Rightarrow> error + 's" where
  "for_each body s [] = Inr s"
| "for_each body s (x # xs) = err_bind (body s x) (\<lambda>s. for_each body s xs)"

text \<open>A call whose returned boolean the caller drops.\<close>

definition discard :: "error + bool \<times> 's \<Rightarrow> error + 's" where
  "discard m = err_bind m (\<lambda>(ok, s). Inr s)"

text \<open>
  \<open>Bootloader.flash\<close>, with the two methods it calls (\<open>send_data\<close> and \<open>program_row\<close>)
  as parameters \<open>sd\<close> and \<open>pr\<close>. A row is the tuple \<open>(array_id, row_number, data)\<close>.
\<close>

type_synonym row = "int \<times> int \<times> int list"

definition flash_with ::
  "('s \<Rightarrow> int list \<Rightarrow> error + bool \<times> 's) \<Rightarrow>
   ('s \<Rightarrow> int \<Rightarrow> int \<Rightarrow> int list \<Rightarrow> error + bool \<times> 's) \<Rightarrow>
   's \<Rightarrow> row list \<Rightarrow> error + 's" where
  "flash_with sd pr self firmware_data =
     for_each (\<lambda>self row.
       let array_id = fst row;
           row_number = fst (snd row);
           data = snd (snd row)
       in if int (length data) \<ge> MAX_DATA_LENGTH then
            let full_packets = int (length data) div MAX_DATA_LENGTH;
                partial_packet_length = int (length data) mod MAX_DATA_LENGTH
            in if partial_packet_length > 0 then
                 err_bind
                   (for_each (\<lambda>self i.
                      discard (sd self (py_slice data (MAX_DATA_LENGTH * i)
                                                      (MAX_DATA_LENGTH * i + MAX_DATA_LENGTH))))
                      self (py_range 0 full_packets)) (\<lambda>self.
                 discard (pr self array_id row_number
                            (py_slice data (MAX_DATA_LENGTH * full_packets)
                               (MAX_DATA_LENGTH * full_packets + partial_packet_length))))
               else
                 err_bind
                   (for_each (\<lambda>self i.
                      discard (sd self (py_slice data (MAX_DATA_LENGTH * i)
                                                      (MAX_DATA_LENGTH * i + MAX_DATA_LENGTH))))
                      self (py_range 0 (full_packets - 1))) (\<lambda>self.
                 discard (pr self array_id row_number
                            (py_slice data (MAX_DATA_LENGTH * (full_packets - 1))
                               (MAX_DATA_LENGTH * (full_packets - 1) + MAX_DATA_LENGTH))))
          else discard (pr self array_id row_number data))
       self firmware_data"

definition flash :: "bootloader \<Rightarrow> row list \<Rightarrow> error + bootloader" where
  "flash self firmware_data = flash_with send_data program_row self firmware_data"

text \<open>
  The calls the loop issues, in order: the same loop run against a recorder, whose
  \<open>send_data\<close> and \<open>program_row\<close> append the call to a log and return.
\<close>

datatype call = SendData "int list" | ProgramRow int int "int list"

definition record_send_data :: "call list \<Rightarrow> int list \<Rightarrow> error + bool \<times> call list" where
  "record_send_data log chunk = Inr (True, log @ [SendData chunk])"

definition record_program_row ::
  "call list \<Rightarrow> int \<Rightarrow> int \<Rightarrow> int list \<Rightarrow> error + bool \<times> call list" where
  "record_program_row log array_id row_number chunk =
     Inr (True, log @ [ProgramRow array_id row_number chunk])"

definition flash_calls :: "row list \<Rightarrow> error + call list" where
  "flash_calls firmware_data = flash_with record_send_data record_program_row [] firmware_data"

text \<open>
  Carrying out one recorded call with the methods \<open>sd\<close> and \<open>pr\<close>; the loop drops what the
  call returns.
\<close>

definition issue ::
  "('s \<Rightarrow> int list \<Rightarrow> error + bool \<times> 's) \<Rightarrow>
   ('s \<Rightarrow> int \<Rightarrow> int \<Rightarrow> int list \<Rightarrow> error + bool \<times> 's) \<Rightarrow>
   's \<Rightarrow> call \<Rightarrow> error + 's" where
  "issue sd pr s c =
     discard (case c of
                SendData chunk \<Rightarrow> sd s chunk
              | ProgramRow array_id row_number chunk \<Rightarrow> pr s array_id row_number chunk)"

text \<open>
  The command byte and the payload that a call hands to \<open>send_command\<close>, as \<open>send_data\<close>
  and \<open>program_row\<close> build them.
\<close>

fun call_command :: "call \<Rightarrow> int" where
  "call_command (SendData chunk) = 0x37"
| "call_command (ProgramRow array_id row_number chunk) = 0x39"

fun call_payload :: "call \<Rightarrow> int list" where
  "call_payload (SendData chunk) = chunk"
| "call_payload (ProgramRow array_id row_number chunk) =
     [array_id, row_number AND 0xff, drop_bit 8 row_number] @ chunk"

text \<open>
  The row splitting as the specification words it, to compare the loop with. For a row of
  \<open>n\<close> bytes, with \<open>full = n div 48\<close> and \<open>rem = n mod 48\<close>, the number of \<open>sendData\<close>
  calls is 0 when \<open>n < 48\<close>, \<open>full\<close> when \<open>rem > 0\<close> and \<open>full - 1\<close> when \<open>rem = 0\<close>;
  chunk \<open>i\<close> is the slice \<open>data[48 * i : 48 * (i + 1)]\<close>; the row ends with one
  \<open>programRow\<close> that carries what is left.
\<close>

definition spec_send_count :: "nat \<Rightarrow> nat" where
  "spec_send_count n =
     (if n < 48 then 0 else if n mod 48 > 0 then n div 48 else n div 48 - 1)"

definition spec_chunk :: "int list \<Rightarrow> nat \<Rightarrow> int list" where
  "spec_chunk data i = take 48 (drop (48 * i) data)"

definition spec_row_calls :: "row \<Rightarrow> call list" where
  "spec_row_calls row =
     (case row of (array_id, row_number, data) \<Rightarrow>
        map (\<lambda>i. SendData (spec_chunk data i)) [0..<spec_send_count (length data)]
        @ [ProgramRow array_id row_number (drop (48 * spec_send_count (length data)) data)])"

section \<open>The firmware file of class Cyacd\<close>

text \<open>
  Modelled from the spec: \<open>binascii.a2b_hex\<close> and \<open>str.rstrip\<close> belong to the Python
  standard library. \<open>a2b_hex\<close> turns each pair of hexadecimal digits (either case) into a
  byte and raises on an odd number of characters or on any other character;
  \<open>rstrip('\r\n')\<close> removes every trailing carriage return and line feed.
\<close>

definition hex_digit :: "char \<Rightarrow> int option" where
  "hex_digit c =
     (let n = (of_char c :: nat)
      in if 48 \<le> n \<and> n \<le> 57 then Some (int n - 48)
         else if 65 \<le> n \<and> n \<le> 70 then Some (int n - 55)
         else if 97 \<le> n \<and> n \<le> 102 then Some (int n - 87)
         else None)"

fun a2b_hex :: "string \<Rightarrow> error + int list" where
  "a2b_hex [] = Inr []"
| "a2b_hex [c] = Inl ValueError"
| "a2b_hex (c1 # c2 # cs) =
     (case (hex_digit c1, hex_digit c2) of
        (Some h, Some l) \<Rightarrow> err_bind (a2b_hex cs) (\<lambda>bs. Inr ((16 * h + l) # bs))
      | _ \<Rightarrow> Inl ValueError)"

definition rstrip_crlf :: "string \<Rightarrow> string" where
  "rstrip_crlf s = rev (dropWhile (\<lambda>c. c = CHR 0x0D \<or> c = CHR 0x0A) (rev s))"

text \<open>\<open>Cyacd._checksum\<close>.\<close>

definition Cyacd_checksum :: "int list \<Rightarrow> int" where
  "Cyacd_checksum data =
     (let checksum = fold (\<lambda>byte checksum. checksum + byte) data 0
      in (NOT checksum + 1) AND 0xff)"

text \<open>The body of the loop of \<open>Cyacd.parse\<close>: one line of the file, appended to the rows.\<close>

definition parse_line :: "row list \<Rightarrow> string \<Rightarrow> error + row list" where
  "parse_line firmware line =
     err_bind (a2b_hex (rstrip_crlf (drop 1 line))) (\<lambda>line.
     err_bind (py_index line 0) (\<lambda>array_id.
     err_bind (py_index line 1) (\<lambda>r1.
     err_bind (py_index line 2) (\<lambda>r2.
     let row_number = push_bit 8 r1 OR r2 in
     err_bind (py_index line 3) (\<lambda>l3.
     err_bind (py_index line 4) (\<lambda>l4.
     let data_length = push_bit 8 l3 OR l4;
         data = py_slice line 5 (5 + data_length) in
     err_bind (py_index line (5 + data_length)) (\<lambda>checksum.
     let checksum_calculated = Cyacd_checksum (py_slice line 0 (- 1)) in
     if checksum \<noteq> checksum_calculated then Inl (AssertionError LineChecksum)
     else Inr (firmware @ [(array_id, row_number, data)]))))))))"

text \<open>The fields of a \<open>Cyacd\<close> object once \<open>parse\<close> has returned.\<close>

record cyacd =
  silicon_id :: int
  silicon_revision :: int
  checksum_type :: int
  firmware :: "row list"

text \<open>\<open>Cyacd.parse\<close>, on the lines \<open>readlines\<close> returned.\<close>

definition parse :: "string list \<Rightarrow> error + cyacd" where
  "parse lines =
     (case lines of
        [] \<Rightarrow> Inl IndexError
      | header_line # lines \<Rightarrow>
          err_bind (a2b_hex (rstrip_crlf header_line)) (\<lambda>header.
          err_bind (py_index header 3) (\<lambda>h3.
          err_bind (py_index header 2) (\<lambda>h2.
          err_bind (py_index header 1) (\<lambda>h1.
          err_bind (py_index header 0) (\<lambda>h0.
          err_bind (py_index header 4) (\<lambda>h4.
          err_bind (py_index header 5) (\<lambda>h5.
          err_bind (for_each parse_line [] lines) (\<lambda>firmware.
          Inr \<lparr>silicon_id = ((h3 OR push_bit 8 h2) OR push_bit 16 h1) OR push_bit 24 h0,
               silicon_revision = h4,
               checksum_type = h5,
               firmware = firmware\<rparr>)))))))))"

text \<open>
  The record of a line as the specification words it, to compare \<open>parse\<close> with: the bytes
  the line decodes to (none when it does not decode), the data length it declares in bytes
  3 and 4 (big-endian), the row it stands for, whether it has exactly the declared length
  (5 header bytes, the data, 1 checksum byte), and whether its trailing byte is the 8-bit
  two's-complement negation of the sum of all the bytes before it.
\<close>

definition line_bytes :: "string \<Rightarrow> int list" where
  "line_bytes l = (case a2b_hex (rstrip_crlf (drop 1 l)) of Inl e \<Rightarrow> [] | Inr bs \<Rightarrow> bs)"

definition declared_length :: "int list \<Rightarrow> nat" where
  "declared_length bs = nat (256 * bs ! 3 + bs ! 4)"

definition spec_row :: "string \<Rightarrow> row" where
  "spec_row l =
     (let bs = line_bytes l
      in (bs ! 0, 256 * bs ! 1 + bs ! 2, take (declared_length bs) (drop 5 bs)))"

definition well_formed_line :: "string \<Rightarrow> bool" where
  "well_formed_line l =
     (case a2b_hex (rstrip_crlf (drop 1 l)) of
        Inl e \<Rightarrow> False
      | Inr bs \<Rightarrow> 5 \<le> length bs \<and> length bs = 6 + declared_length bs)"

definition checksum_matches :: "string \<Rightarrow> bool" where
  "checksum_matches l =
     (let bs = line_bytes l in last bs = (- sum_list (butlast bs)) mod 256)"

section \<open>Helper facts\<close>

lemma fold_add_acc: "fold (\<lambda>byte checksum. checksum + byte) xs (a::int) = a + sum_list xs"
  by (induction xs arbitrary: a) simp_all

lemma Bootloader_checksum_mod: "Bootloader_checksum xs = (- sum_list xs) mod 65536"
proof -
  have "(NOT (sum_list xs) + 1) AND (0xffff::int) = take_bit 16 (- sum_list xs)"
    using take_bit_eq_mask [of 16 "- sum_list xs"]
    by (simp add: not_int_def mask_eq_exp_minus_1)
  then show ?thesis
    by (simp add: Bootloader_checksum_def fold_add_acc take_bit_eq_mod)
qed

lemma and_ff: "(x::int) AND 0xff = x mod 256"
  using take_bit_eq_mask [of 8 x] by (simp add: mask_eq_exp_minus_1 take_bit_eq_mod)

lemma drop_bit_8: "drop_bit 8 (x::int) = x div 256"
  by (simp add: drop_bit_eq_div)

lemma or_push_bit_add:
  assumes "0 \<le> a" "a < 2 ^ n"
  shows "(a::int) OR push_bit n b = a + push_bit n b"
proof -
  have "take_bit n a = a" using assms by (simp add: take_bit_int_eq_self)
  then show ?thesis
    using concat_bit_eq [of n a b] by (simp add: concat_bit_def)
qed

lemma push_bit_or_add:
  assumes "0 \<le> a" "a < 2 ^ n"
  shows "push_bit n b OR (a::int) = push_bit n b + a"
  using or_push_bit_add [OF assms, of b] by (simp add: or.commute add.commute)

lemma py_index_nat:
  "i < length xs \<Longrightarrow> py_index xs (int i) = Inr (xs ! i)"
  by (simp add: py_index_def)

lemma py_slice_nonneg:
  "0 \<le> a \<Longrightarrow> a \<le> b \<Longrightarrow> py_slice xs a b = take (nat (b - a)) (drop (nat a) xs)"
  by (auto simp: py_slice_def py_bound_def Let_def min_def take_all_iff)

lemma py_slice_butlast: "py_slice xs 0 (- 1) = butlast xs"
  by (cases xs rule: rev_cases) (simp_all add: py_slice_def py_bound_def)

lemma err_bind_Inr [simp]: "err_bind (Inr v) f = f v"
  by (simp add: err_bind_def)

lemma err_bind_Inl [simp]: "err_bind (Inl e) f = Inl e"
  by (simp add: err_bind_def)

lemma STATUSES_dom: "dom STATUSES = {0x00, 0x03, 0x04, 0x05, 0x08, 0x09, 0x0a, 0x0c, 0x0d, 0x0e, 0x0f}"
  by (auto simp: STATUSES_def dom_def split: if_splits)

lemma make_packet_ok:
  assumes "length data \<le> 57"
  shows "make_packet command data =
           Inr ([0x01, command, int (length data), 0] @ data @
                [Bootloader_checksum ([0x01, command, int (length data), 0] @ data) mod 256,
                 Bootloader_checksum ([0x01, command, int (length data), 0] @ data) div 256,
                 0x17])"
  using assms by (simp add: make_packet_def Let_def and_ff drop_bit_8)

lemma parse_response_frame:
  assumes len: "length d \<le> 57"
      and st: "STATUSES code = Some name"
      and c: "0 \<le> c" "c < 65536"
  shows "parse_response ([0x01, code, int (length d), 0] @ d @ [c mod 256, c div 256, 0x17]) =
           Inr \<lparr>status = name, payload = d,
                checksum_ok = (Bootloader_checksum ([0x01, code, int (length d), 0] @ d) = c)\<rparr>"
proof -
  let ?f = "[0x01, code, int (length d), 0] @ d @ [c mod 256, c div 256, 0x17]"
  have L: "length ?f = length d + 7" by simp
  have i0: "py_index ?f 0 = Inr 1" by (simp add: py_index_def)
  have i1: "py_index ?f 1 = Inr code" by (simp add: py_index_def)
  have i2: "py_index ?f 2 = Inr (int (length d))" by (simp add: py_index_def)
  have i3: "py_index ?f 3 = Inr 0" by (simp add: py_index_def)
  have dl: "push_bit 8 (0::int) OR int (length d) = int (length d)" by simp
  have t: "py_index ?f (4 + int (length d) + int k) = Inr ([c mod 256, c div 256, 0x17] ! k)"
    if "k < 3" for k
  proof -
    have e: "4 + int (length d) + int k = int (length ([0x01, code, int (length d), 0] @ d) + k)"
      by simp
    have "py_index ?f (int (length ([0x01, code, int (length d), 0] @ d) + k)) =
            Inr (?f ! (length ([0x01, code, int (length d), 0] @ d) + k))"
      using that by (intro py_index_nat) simp
    also have "?f ! (length ([0x01, code, int (length d), 0] @ d) + k) =
                 [c mod 256, c div 256, 0x17] ! k"
      using nth_append_length_plus [of "[0x01, code, int (length d), 0] @ d"
                                       "[c mod 256, c div 256, 0x17]" k]
      by simp
    finally show ?thesis unfolding e .
  qed
  have i4: "py_index ?f (4 + int (length d)) = Inr (c mod 256)"
    using t [of 0] by simp
  have i5: "py_index ?f (4 + int (length d) + 1) = Inr (c div 256)"
    using t [of 1] by simp
  have i6: "py_index ?f (4 + int (length d) + 2) = Inr 0x17"
    using t [of 2] by simp
  have s1: "py_slice ?f 4 (4 + int (length d)) = d"
    by (simp add: py_slice_nonneg)
  have s0: "py_slice ?f 0 (4 + int (length d)) = [0x01, code, int (length d), 0] @ d"
  proof -
    have "nat (4 + int (length d)) = length ([0x01, code, int (length d), 0] @ d)"
      by simp
    then have "take (nat (4 + int (length d))) ?f = [0x01, code, int (length d), 0] @ d"
      by (metis append.assoc append_eq_conv_conj)
    then show ?thesis by (simp add: py_slice_nonneg)
  qed
  have lo: "0 \<le> c mod 256" "c mod 256 < 2 ^ 8" by simp_all
  have cc: "c mod 256 OR push_bit 8 (c div 256) = c"
    using or_push_bit_add [OF lo, of "c div 256"] by (simp add: push_bit_eq_mult)
  show ?thesis
    unfolding parse_response_def Let_def i0 i1 i2 i3 err_bind_Inr dl i4 i5 i6 s0 s1 cc
    using st by (cases d) simp_all
qed

lemma codec_roundtrip:
  assumes "length data \<le> 57" "STATUSES command = Some name"
  shows "err_bind (make_packet command data) parse_response =
           Inr \<lparr>status = name, payload = data, checksum_ok = True\<rparr>"
proof -
  let ?c = "Bootloader_checksum ([0x01, command, int (length data), 0] @ data)"
  have "0 \<le> ?c" "?c < 65536" by (simp_all add: Bootloader_checksum_mod)
  from parse_response_frame [OF assms this] show ?thesis
    by (simp add: make_packet_ok [OF assms(1)])
qed

lemma parse_response_unknown_status:
  assumes "2 \<le> length frame" "frame ! 0 = 0x01" "STATUSES (frame ! 1) = None"
  shows "parse_response frame = Inl (KeyError (frame ! 1))"
proof -
  have "py_index frame 0 = Inr (frame ! 0)" "py_index frame 1 = Inr (frame ! 1)"
    using assms(1) by (auto simp: py_index_def)
  then show ?thesis using assms(2,3) by (simp add: parse_response_def)
qed

lemma send_command_exchange:
  assumes "make_packet command data = Inr packet" "pending (device s) = frame # rest"
  shows "send_command s command data =
           err_bind (parse_response (take 64 frame)) (\<lambda>r.
             Inr (r, s\<lparr>device := (device s)\<lparr>written := written (device s) @ [packet],
                                              pending := rest\<rparr>\<rparr>))"
  using assms by (simp add: send_command_def hid_write_def hid_read_def Let_def)

lemma make_packet_Inr:
  "length data \<le> 57 \<Longrightarrow> \<exists>packet. make_packet command data = Inr packet"
  by (simp add: make_packet_ok)

lemma send_command_answer:
  assumes "length data \<le> 57" "pending (device s) = frame # rest"
    "parse_response (take 64 frame) = Inr r"
  shows "\<exists>s'. send_command s command data = Inr (r, s')"
proof -
  obtain packet where "make_packet command data = Inr packet"
    using make_packet_Inr [OF assms(1)] by blast
  from send_command_exchange [OF this assms(2)] assms(3) show ?thesis by simp
qed

lemma parse_response_empty_frame:
  assumes "STATUSES code = Some name" "0 \<le> c" "c < 65536"
  shows "parse_response [0x01, code, 0, 0, c mod 256, c div 256, 0x17] =
           Inr \<lparr>status = name, payload = [],
                checksum_ok = (Bootloader_checksum [0x01, code, 0, 0] = c)\<rparr>"
  using parse_response_frame [of "[]" code name c] assms by simp

lemma example_frames:
  "parse_response [0x01, 0x00, 0, 0, 0xff, 0xff, 0x17] = Inr \<lparr>status = ''CYRET_SUCCESS'', payload = [], checksum_ok = True\<rparr>"
  "parse_response [0x01, 0x00, 0, 0, 0xfe, 0xff, 0x17] = Inr \<lparr>status = ''CYRET_SUCCESS'', payload = [], checksum_ok = False\<rparr>"
  "parse_response [0x01, 0x08, 0, 0, 0xf7, 0xff, 0x17] = Inr \<lparr>status = ''BOOTLOADER_ERR_CHECKSUM'', payload = [], checksum_ok = True\<rparr>"
  using parse_response_empty_frame [of 0 "''CYRET_SUCCESS''" "0xffff"]
     parse_response_empty_frame [of 0 "''CYRET_SUCCESS''" "0xfffe"]
     parse_response_empty_frame [of 8 "''BOOTLOADER_ERR_CHECKSUM''" "0xfff7"]
  by (simp_all add: STATUSES_def Bootloader_checksum_mod)

lemma make_packet_enter: "make_packet 0x38 [] = Inr [0x01, 0x38, 0x00, 0x00, 0xc7, 0xff, 0x17]"
  by (simp add: make_packet_ok Bootloader_checksum_mod)

lemma make_packet_exit: "make_packet 0x3b [] = Inr [0x01, 0x3b, 0x00, 0x00, 0xc4, 0xff, 0x17]"
  by (simp add: make_packet_ok Bootloader_checksum_mod)

lemma little_endian_32:
  assumes "0 \<le> b0" "b0 < 256" "0 \<le> b1" "b1 < 256" "0 \<le> b2" "b2 < 256"
  shows "((b0 OR push_bit 8 b1) OR push_bit 16 b2) OR push_bit 24 (b3::int) =
           b0 + 256 * b1 + 65536 * b2 + 16777216 * b3"
proof -
  have 1: "b0 OR push_bit 8 b1 = b0 + 256 * b1"
    using or_push_bit_add [of b0 8 b1] assms by (simp add: push_bit_eq_mult)
  have 2: "(b0 + 256 * b1) OR push_bit 16 b2 = b0 + 256 * b1 + 65536 * b2"
    using or_push_bit_add [of "b0 + 256 * b1" 16 b2] assms by (simp add: push_bit_eq_mult)
  have 3: "(b0 + 256 * b1 + 65536 * b2) OR push_bit 24 b3 = b0 + 256 * b1 + 65536 * b2 + 16777216 * b3"
    using or_push_bit_add [of "b0 + 256 * b1 + 65536 * b2" 24 b3] assms by (simp add: push_bit_eq_mult)
  show ?thesis by (simp only: 1 2 3)
qed

lemma py_slice_5_8:
  "8 \<le> length p \<Longrightarrow> py_slice p 5 8 = [p ! 5, p ! 6, p ! 7]"
proof -
  assume l: "8 \<le> length p"
  have "py_slice p 5 8 = take 3 (drop 5 p)" by (simp add: py_slice_nonneg)
  also have "\<dots> = [p ! 5, p ! 6, p ! 7]"
    using l by (simp add: numeral_3_eq_3 take_Suc_conv_app_nth)
  finally show ?thesis .
qed

lemma example_enter_frame:
  "parse_response [0x01, 0x00, 8, 0, 1, 2, 3, 4, 5, 6, 7, 8, 0xd3, 0xff, 0x17] =
     Inr \<lparr>status = ''CYRET_SUCCESS'', payload = [1, 2, 3, 4, 5, 6, 7, 8], checksum_ok = True\<rparr>"
  using parse_response_frame [of "[1, 2, 3, 4, 5, 6, 7, 8]" 0 "''CYRET_SUCCESS''" "0xffd3"]
  by (simp add: STATUSES_def Bootloader_checksum_mod)

subsection \<open>The flashing loop as a list of calls\<close>

lemma for_each_append:
  "for_each body s (xs @ ys) = err_bind (for_each body s xs) (\<lambda>s. for_each body s ys)"
  by (induction xs arbitrary: s) (simp_all add: err_bind_def split: sum.splits)

lemma for_each_map:
  "for_each body s (map f xs) = for_each (\<lambda>s x. body s (f x)) s xs"
  by (induction xs arbitrary: s) (simp_all add: err_bind_def split: sum.splits)

lemma py_range_0: "py_range 0 (int k) = map int [0..<k]"
proof (induction k)
  case 0
  then show ?case by (simp add: py_range_def)
next
  case (Suc k)
  have "[0..int (Suc k) - 1] = [0..int k - 1] @ [int k]"
    using upto_rec2 [of 0 "int k"] by simp
  with Suc show ?case by (simp add: py_range_def)
qed

lemma py_slice_chunk:
  "py_slice data (MAX_DATA_LENGTH * int i) (MAX_DATA_LENGTH * int i + MAX_DATA_LENGTH) =
     spec_chunk data i"
  by (simp add: py_slice_nonneg MAX_DATA_LENGTH_def spec_chunk_def nat_mult_distrib)

lemma err_bind_Inr_right: "err_bind m Inr = m"
  by (simp add: err_bind_def split: sum.splits)

lemma send_loop:
  "for_each (\<lambda>self i. discard (sd self (py_slice data (MAX_DATA_LENGTH * i)
                                          (MAX_DATA_LENGTH * i + MAX_DATA_LENGTH))))
     s (py_range 0 (int k)) =
   for_each (issue sd pr) s (map (\<lambda>i. SendData (spec_chunk data i)) [0..<k])"
  by (simp add: py_range_0 for_each_map py_slice_chunk issue_def)

lemma row_loop_body:
  fixes data :: "int list"
  defines "n \<equiv> length data"
  shows "(if int n \<ge> MAX_DATA_LENGTH then
            let full_packets = int n div MAX_DATA_LENGTH;
                partial_packet_length = int n mod MAX_DATA_LENGTH
            in if partial_packet_length > 0 then
                 err_bind
                   (for_each (\<lambda>self i.
                      discard (sd self (py_slice data (MAX_DATA_LENGTH * i)
                                                      (MAX_DATA_LENGTH * i + MAX_DATA_LENGTH))))
                      s (py_range 0 full_packets)) (\<lambda>self.
                 discard (pr self a r
                            (py_slice data (MAX_DATA_LENGTH * full_packets)
                               (MAX_DATA_LENGTH * full_packets + partial_packet_length))))
               else
                 err_bind
                   (for_each (\<lambda>self i.
                      discard (sd self (py_slice data (MAX_DATA_LENGTH * i)
                                                      (MAX_DATA_LENGTH * i + MAX_DATA_LENGTH))))
                      s (py_range 0 (full_packets - 1))) (\<lambda>self.
                 discard (pr self a r
                            (py_slice data (MAX_DATA_LENGTH * (full_packets - 1))
                               (MAX_DATA_LENGTH * (full_packets - 1) + MAX_DATA_LENGTH))))
          else discard (pr s a r data)) =
         for_each (issue sd pr) s (spec_row_calls (a, r, data))"
proof -
  let ?k = "spec_send_count n"
  have rhs: "for_each (issue sd pr) s (spec_row_calls (a, r, data)) =
               err_bind (for_each (issue sd pr) s (map (\<lambda>i. SendData (spec_chunk data i)) [0..<?k]))
                 (\<lambda>s. discard (pr s a r (drop (48 * ?k) data)))"
    by (simp add: spec_row_calls_def n_def for_each_append err_bind_Inr_right issue_def)
  consider (small) "n < 48" | (part) "48 \<le> n" "n mod 48 > 0" | (even) "48 \<le> n" "n mod 48 = 0"
    by linarith
  then show ?thesis
  proof cases
    case small
    then have "?k = 0" by (simp add: spec_send_count_def)
    then show ?thesis using small by (simp add: rhs MAX_DATA_LENGTH_def)
  next
    case part
    then have k: "?k = n div 48" by (simp add: spec_send_count_def)
    have f: "int (n div 48) = int n div 48" "int (n mod 48) = int n mod 48"
      by (simp_all add: zdiv_int zmod_int)
    have g: "0 < int n mod 48" using part(2) unfolding f(2) [symmetric] by simp
    have "py_slice data (48 * int (n div 48)) (48 * int (n div 48) + int (n mod 48)) =
            take (n mod 48) (drop (48 * (n div 48)) data)"
      by (simp add: py_slice_nonneg nat_mult_distrib)
    also have "\<dots> = drop (48 * (n div 48)) data"
    proof -
      have "length (drop (48 * (n div 48)) data) = n mod 48"
        by (simp add: n_def minus_mult_div_eq_mod)
      then show ?thesis by simp
    qed
    finally have last: "py_slice data (48 * (int n div 48)) (48 * (int n div 48) + int n mod 48) =
            drop (48 * (n div 48)) data"
      unfolding f .
    have loop: "for_each (\<lambda>self i. discard (sd self (py_slice data (48 * i) (48 * i + 48))))
                  s (py_range 0 (int n div 48)) =
                for_each (issue sd pr) s (map (\<lambda>i. SendData (spec_chunk data i)) [0..<n div 48])"
      using send_loop [of sd data s "n div 48" pr] unfolding f by (simp add: MAX_DATA_LENGTH_def)
    have c1: "int n \<ge> MAX_DATA_LENGTH" using part(1) by (simp add: MAX_DATA_LENGTH_def)
    have c2: "int n mod MAX_DATA_LENGTH > 0" using g by (simp add: MAX_DATA_LENGTH_def)
    have lastM: "py_slice data (MAX_DATA_LENGTH * (int n div MAX_DATA_LENGTH))
                   (MAX_DATA_LENGTH * (int n div MAX_DATA_LENGTH) + int n mod MAX_DATA_LENGTH) =
                 drop (48 * spec_send_count n) data"
      using last by (simp add: MAX_DATA_LENGTH_def k)
    have loopM: "for_each (\<lambda>self i.
                      discard (sd self (py_slice data (MAX_DATA_LENGTH * i)
                                                      (MAX_DATA_LENGTH * i + MAX_DATA_LENGTH))))
                      s (py_range 0 (int n div MAX_DATA_LENGTH)) =
                 for_each (issue sd pr) s
                   (map (\<lambda>i. SendData (spec_chunk data i)) [0..<spec_send_count n])"
      using loop by (simp add: MAX_DATA_LENGTH_def k)
    show ?thesis
      unfolding Let_def if_P [OF c1] if_P [OF c2] loopM lastM rhs ..
  next
    case even
    then have k: "?k = n div 48 - 1" by (simp add: spec_send_count_def)
    from even have d: "1 \<le> n div 48" by (simp add: div_greater_zero_iff Suc_leI)
    have "int n mod 48 = int (n mod 48)" by (simp add: zmod_int)
    then have g: "int n mod 48 = 0" using even by simp
    have m: "int (n div 48 - 1) = int n div 48 - 1" using d by (simp add: zdiv_int)
    have "py_slice data (48 * int (n div 48 - 1)) (48 * int (n div 48 - 1) + 48) =
            take 48 (drop (48 * (n div 48 - 1)) data)"
      by (simp add: py_slice_nonneg nat_mult_distrib)
    also have "\<dots> = drop (48 * (n div 48 - 1)) data"
    proof -
      obtain q where q: "n = 48 * q"
        using even(2) by (auto simp: mod_eq_0_iff_dvd elim: dvdE)
      with even(1) have "1 \<le> q" by simp
      moreover have "n div 48 = q" using q by simp
      ultimately have "n - 48 * (n div 48 - 1) = 48"
        using q by (simp add: diff_mult_distrib2)
      then have "length (drop (48 * (n div 48 - 1)) data) = 48"
        by (simp add: n_def)
      then show ?thesis by simp
    qed
    finally have last: "py_slice data (48 * (int n div 48 - 1)) (48 * (int n div 48 - 1) + 48) =
            drop (48 * (n div 48 - 1)) data"
      unfolding m .
    have loop: "for_each (\<lambda>self i. discard (sd self (py_slice data (48 * i) (48 * i + 48))))
                  s (py_range 0 (int n div 48 - 1)) =
                for_each (issue sd pr) s (map (\<lambda>i. SendData (spec_chunk data i)) [0..<n div 48 - 1])"
      using send_loop [of sd data s "n div 48 - 1" pr] unfolding m by (simp add: MAX_DATA_LENGTH_def)
    have c1: "int n \<ge> MAX_DATA_LENGTH" using even(1) by (simp add: MAX_DATA_LENGTH_def)
    have c2: "\<not> int n mod MAX_DATA_LENGTH > 0" using g by (simp add: MAX_DATA_LENGTH_def)
    have lastM: "py_slice data (MAX_DATA_LENGTH * (int n div MAX_DATA_LENGTH - 1))
                   (MAX_DATA_LENGTH * (int n div MAX_DATA_LENGTH - 1) + MAX_DATA_LENGTH) =
                 drop (48 * spec_send_count n) data"
      using last by (simp add: MAX_DATA_LENGTH_def k)
    have loopM: "for_each (\<lambda>self i.
                      discard (sd self (py_slice data (MAX_DATA_LENGTH * i)
                                                      (MAX_DATA_LENGTH * i + MAX_DATA_LENGTH))))
                      s (py_range 0 (int n div MAX_DATA_LENGTH - 1)) =
                 for_each (issue sd pr) s
                   (map (\<lambda>i. SendData (spec_chunk data i)) [0..<spec_send_count n])"
      using loop by (simp add: MAX_DATA_LENGTH_def k)
    show ?thesis
      unfolding Let_def if_P [OF c1] if_not_P [OF c2] loopM lastM rhs ..
  qed
qed

lemma flash_with_Cons:
  "flash_with sd pr s (row # rows) =
     err_bind (for_each (issue sd pr) s (spec_row_calls row)) (\<lambda>s. flash_with sd pr s rows)"
proof -
  obtain a r d where row: "row = (a, r, d)" by (cases row) auto
  show ?thesis
    unfolding flash_with_def for_each.simps row Let_def fst_conv snd_conv
      row_loop_body [of d sd s pr a r, unfolded Let_def] ..
qed

lemma flash_with_issue:
  "flash_with sd pr s rows = for_each (issue sd pr) s (concat (map spec_row_calls rows))"
proof (induction rows arbitrary: s)
  case Nil
  show ?case by (simp add: flash_with_def)
next
  case (Cons row rows)
  show ?case by (simp add: flash_with_Cons Cons.IH for_each_append)
qed

lemma record_call:
  "issue record_send_data record_program_row log c = Inr (log @ [c])"
  by (cases c) (simp_all add: issue_def discard_def record_send_data_def record_program_row_def)

lemma for_each_log:
  assumes "\<And>log x. body log x = Inr (log @ [x])"
  shows "for_each body log xs = Inr (log @ xs)"
  by (induction xs arbitrary: log) (simp_all add: assms)

lemma record_calls:
  "for_each (issue record_send_data record_program_row) log calls = Inr (log @ calls)"
  by (rule for_each_log) (rule record_call)

lemma flash_calls_eq: "flash_calls rows = Inr (concat (map spec_row_calls rows))"
  by (simp add: flash_calls_def flash_with_issue record_calls)

lemma spec_chunk_length:
  assumes "i < spec_send_count (length data)"
  shows "length (spec_chunk data i) = 48"
proof -
  let ?n = "length data"
  have "48 * spec_send_count ?n \<le> ?n"
    by (simp add: spec_send_count_def) (metis  div_mult_mod_eq le_add1 mult.commute diff_le_self le_trans mult_le_mono2)
  moreover have "48 * (i + 1) \<le> 48 * spec_send_count ?n" using assms by simp
  ultimately have "48 * i + 48 \<le> ?n" by simp
  then show ?thesis by (simp add: spec_chunk_def)
qed

lemma spec_last_length:
  "length (drop (48 * spec_send_count (length data)) data) =
     (if length data < 48 then length data
      else if length data mod 48 > 0 then length data mod 48 else 48)"
proof -
  let ?n = "length data"
  consider (small) "?n < 48" | (part) "48 \<le> ?n" "?n mod 48 > 0" | (even) "48 \<le> ?n" "?n mod 48 = 0"
    by linarith
  then show ?thesis
  proof cases
    case small
    then show ?thesis by (simp add: spec_send_count_def)
  next
    case part
    then show ?thesis by (simp add: spec_send_count_def minus_mult_div_eq_mod)
  next
    case even
    obtain q where q: "?n = 48 * q"
      using even(2) by (auto simp: mod_eq_0_iff_dvd elim: dvdE)
    with even(1) have "1 \<le> q" by simp
    moreover have "?n div 48 = q" using q by simp
    ultimately have "?n - 48 * (?n div 48 - 1) = 48"
      using q by (simp add: diff_mult_distrib2)
    then show ?thesis using even by (simp add: spec_send_count_def)
  qed
qed

lemma concat_chunks:
  "concat (map (spec_chunk data) [0..<k]) = take (48 * k) data"
proof (induction k)
  case 0
  show ?case by simp
next
  case (Suc k)
  have "take (48 * Suc k) data = take (48 * k) data @ take 48 (drop (48 * k) data)"
    by (simp add: take_add [symmetric] add.commute)
  with Suc show ?case by (simp add: spec_chunk_def)
qed

lemma err_bind_Inl_iff:
  "err_bind m f = Inl e \<longleftrightarrow> m = Inl e \<or> (\<exists>v. m = Inr v \<and> f v = Inl e)"
  by (cases m) simp_all

lemma py_index_error: "py_index xs i = Inl e \<Longrightarrow> e = IndexError"
  by (auto simp: py_index_def Let_def split: if_splits)

lemma parse_response_not_PayloadLength:
  "parse_response frame \<noteq> Inl (AssertionError PayloadLength)"
  by (auto simp: parse_response_def Let_def err_bind_Inl_iff split: option.splits if_splits
      dest!: py_index_error)

lemma send_command_not_PayloadLength:
  assumes "length data \<le> 57"
  shows "send_command s command data \<noteq> Inl (AssertionError PayloadLength)"
proof -
  obtain packet where "make_packet command data = Inr packet"
    using make_packet_Inr [OF assms] by blast
  then show ?thesis
    using parse_response_not_PayloadLength
    by (auto simp: send_command_def Let_def hid_read_def err_bind_Inl_iff split: list.splits)
qed

lemma issue_send_command:
  "issue send_data program_row s c = Inl e \<longleftrightarrow>
     send_command s (call_command c) (call_payload c) = Inl e"
  by (cases c)
     (auto simp: issue_def discard_def send_data_def program_row_def Let_def err_bind_Inl_iff
           split: if_splits)

lemma for_each_never:
  assumes "\<And>s x. x \<in> set xs \<Longrightarrow> body s x \<noteq> Inl e"
  shows "for_each body s xs \<noteq> Inl e"
  using assms
proof (induction xs arbitrary: s)
  case Nil
  show ?case by simp
next
  case (Cons x xs)
  then show ?case by (auto simp: err_bind_Inl_iff)
qed

lemma spec_row_calls_payload:
  assumes "c \<in> set (spec_row_calls row)"
  shows "case c of SendData chunk \<Rightarrow> length chunk = 48 \<and> length (call_payload c) = 48
         | ProgramRow a r chunk \<Rightarrow> length chunk \<le> 48 \<and> length (call_payload c) \<le> 51"
proof -
  obtain a r d where row: "row = (a, r, d)" by (cases row) auto
  from assms consider (send) i where "i < spec_send_count (length d)" "c = SendData (spec_chunk d i)"
    | (prog) "c = ProgramRow a r (drop (48 * spec_send_count (length d)) d)"
    by (auto simp: row spec_row_calls_def)
  then show ?thesis
  proof cases
    case send
    then show ?thesis by (simp add: spec_chunk_length)
  next
    case prog
    have "length (drop (48 * spec_send_count (length d)) d) \<le> 48"
      unfolding spec_last_length by simp
    then show ?thesis using prog by simp
  qed
qed

subsection \<open>Lines of the firmware file\<close>

lemma Cyacd_checksum_mod: "Cyacd_checksum xs = (- sum_list xs) mod 256"
proof -
  have "(NOT (sum_list xs) + 1) AND (0xff::int) = (- sum_list xs) mod 256"
    by (simp add: and_ff not_int_def)
  then show ?thesis by (simp add: Cyacd_checksum_def fold_add_acc)
qed

lemma hex_digit_range: "hex_digit c = Some h \<Longrightarrow> 0 \<le> h \<and> h < 16"
  by (auto simp: hex_digit_def Let_def split: if_splits)

lemma a2b_hex_bytes: "a2b_hex s = Inr bs \<Longrightarrow> b \<in> set bs \<Longrightarrow> 0 \<le> b \<and> b < 256"
proof (induction s arbitrary: bs rule: a2b_hex.induct)
  case 1
  then show ?case by simp
next
  case (2 c)
  then show ?case by simp
next
  case (3 c1 c2 cs)
  from "3.prems"(1) obtain h l bs' where
    d: "hex_digit c1 = Some h" "hex_digit c2 = Some l" "a2b_hex cs = Inr bs'" "bs = (16 * h + l) # bs'"
    by (auto simp: err_bind_def split: option.splits sum.splits)
  have "0 \<le> 16 * h + l \<and> 16 * h + l < 256"
    using hex_digit_range [OF d(1)] hex_digit_range [OF d(2)] by simp
  moreover have "b \<in> set bs' \<Longrightarrow> 0 \<le> b \<and> b < 256"
    using "3.IH" d by simp
  ultimately show ?case using "3.prems"(2) d(4) by auto
qed

lemma big_endian_16:
  assumes "0 \<le> lo" "lo < 256"
  shows "push_bit 8 hi OR (lo::int) = 256 * hi + lo"
  using push_bit_or_add [of lo 8 hi] assms by (simp add: push_bit_eq_mult)

lemma parse_line_well_formed:
  assumes wf: "well_formed_line l"
  shows "parse_line acc l =
           (if checksum_matches l then Inr (acc @ [spec_row l])
            else Inl (AssertionError LineChecksum))"
proof -
  from wf obtain bs where
    dec: "a2b_hex (rstrip_crlf (drop 1 l)) = Inr bs" and
    len: "length bs = 6 + declared_length bs"
    by (auto simp: well_formed_line_def split: sum.splits)
  have dec': "a2b_hex (rstrip_crlf (drop (Suc 0) l)) = Inr bs" using dec by simp
  have lb: "line_bytes l = bs" by (simp add: line_bytes_def dec')
  have byte: "0 \<le> bs ! k \<and> bs ! k < 256" if "k < length bs" for k
    using a2b_hex_bytes [OF dec, of "bs ! k"] that by simp
  have six: "6 \<le> length bs" using len by simp
  have idx: "py_index bs (int k) = Inr (bs ! k)" if "k < 6" for k
    using that six by (intro py_index_nat) simp
  have i: "py_index bs 0 = Inr (bs ! 0)" "py_index bs 1 = Inr (bs ! 1)"
    "py_index bs 2 = Inr (bs ! 2)" "py_index bs 3 = Inr (bs ! 3)" "py_index bs 4 = Inr (bs ! 4)"
    using idx [of 0] idx [of 1] idx [of 2] idx [of 3] idx [of 4] by simp_all
  have rn: "push_bit 8 (bs ! 1) OR bs ! 2 = 256 * bs ! 1 + bs ! 2"
    using byte [of 2] six by (intro big_endian_16) simp_all
  have dl: "push_bit 8 (bs ! 3) OR bs ! 4 = 256 * bs ! 3 + bs ! 4"
    using byte [of 4] six by (intro big_endian_16) simp_all
  have nonneg: "0 \<le> 256 * bs ! 3 + bs ! 4"
    using byte [of 3] byte [of 4] six by simp
  then have d: "256 * bs ! 3 + bs ! 4 = int (declared_length bs)"
    by (simp add: declared_length_def)
  have sl: "py_slice bs 5 (5 + int (declared_length bs)) = take (declared_length bs) (drop 5 bs)"
    by (simp add: py_slice_nonneg)
  have "5 + int (declared_length bs) = int (length bs - 1)" using len by simp
  moreover have "py_index bs (int (length bs - 1)) = Inr (bs ! (length bs - 1))"
    using six by (intro py_index_nat) simp
  moreover have "bs ! (length bs - 1) = last bs"
    using six by (intro last_conv_nth [symmetric]) auto
  ultimately have ck: "py_index bs (5 + int (declared_length bs)) = Inr (last bs)" by simp
  show ?thesis
    using i rn dl d sl ck
    by (simp add: parse_line_def dec' py_slice_butlast Cyacd_checksum_mod
        checksum_matches_def spec_row_def lb Let_def)
qed

lemma parse_lines_well_formed:
  assumes "\<forall>l \<in> set lines. well_formed_line l"
  shows "for_each parse_line acc lines =
           (if \<forall>l \<in> set lines. checksum_matches l then Inr (acc @ map spec_row lines)
            else Inl (AssertionError LineChecksum))"
  using assms
proof (induction lines arbitrary: acc)
  case Nil
  show ?case by simp
next
  case (Cons l lines)
  then have "well_formed_line l" and rest: "\<forall>l \<in> set lines. well_formed_line l" by simp_all
  from parse_line_well_formed [OF this(1)] Cons.IH [OF rest]
  show ?case by simp
qed

text \<open>
  On a line that has exactly the length it declares, the byte \<open>parse\<close> reads as the
  checksum is the last byte and the bytes it sums are the bytes before it.
\<close>

lemma parse_exact_length_lines:
  assumes "a2b_hex (rstrip_crlf header_line) = Inr header"
      and "6 \<le> length header"
      and "\<forall>l \<in> set lines. well_formed_line l"
  shows "parse (header_line # lines) =
           (if \<forall>l \<in> set lines. checksum_matches l
            then Inr \<lparr>silicon_id = 16777216 * header ! 0 + 65536 * header ! 1
                                   + 256 * header ! 2 + header ! 3,
                      silicon_revision = header ! 4,
                      checksum_type = header ! 5,
                      firmware = map spec_row lines\<rparr>
            else Inl (AssertionError LineChecksum))"
proof -
  have idx: "py_index header (int k) = Inr (header ! k)" if "k < 6" for k
    using that assms(2) by (intro py_index_nat) simp
  have i: "py_index header 0 = Inr (header ! 0)" "py_index header 1 = Inr (header ! 1)"
    "py_index header 2 = Inr (header ! 2)" "py_index header 3 = Inr (header ! 3)"
    "py_index header 4 = Inr (header ! 4)" "py_index header 5 = Inr (header ! 5)"
    using idx [of 0] idx [of 1] idx [of 2] idx [of 3] idx [of 4] idx [of 5] by simp_all
  have byte: "0 \<le> header ! k \<and> header ! k < 256" if "k < 6" for k
    using a2b_hex_bytes [OF assms(1), of "header ! k"] that assms(2) by simp
  have sid: "((header ! 3 OR push_bit 8 (header ! 2)) OR push_bit 16 (header ! 1))
               OR push_bit 24 (header ! 0) =
             16777216 * header ! 0 + 65536 * header ! 1 + 256 * header ! 2 + header ! 3"
    using little_endian_32 [of "header ! 3" "header ! 2" "header ! 1" "header ! 0"]
      byte [of 3] byte [of 2] byte [of 1]
    by simp
  show ?thesis
    using i sid assms(1) parse_lines_well_formed [OF assms(3), of "[]"]
    by (simp add: parse_def)
qed

lemma parse_exact_length_lines_example:
  "parse [''0001020304AA'' @ [CHR 0x0A],
          '':0100000000FF'' @ [CHR 0x0D, CHR 0x0A],
          '':00000100021122CA'' @ [CHR 0x0A]] =
     Inr \<lparr>silicon_id = 0x00010203, silicon_revision = 0x04, checksum_type = 0xAA,
          firmware = [(0x01, 0, []), (0x00, 1, [0x11, 0x22])]\<rparr>
   \<and> parse [''0001020304AA'' @ [CHR 0x0A],
            '':0100000000FF'' @ [CHR 0x0D, CHR 0x0A],
            '':00000100021122CB'' @ [CHR 0x0A]] =
     Inl (AssertionError LineChecksum)"
proof -
  have h: "a2b_hex (rstrip_crlf (''0001020304AA'' @ [CHR 0x0A])) = Inr [0, 1, 2, 3, 4, 170]"
    by (simp add: rstrip_crlf_def hex_digit_def)
  have l1: "a2b_hex (rstrip_crlf (drop 1 ('':0100000000FF'' @ [CHR 0x0D, CHR 0x0A]))) =
              Inr [1, 0, 0, 0, 0, 255]"
    by (simp add: rstrip_crlf_def hex_digit_def)
  have l2: "a2b_hex (rstrip_crlf (drop 1 ('':00000100021122CA'' @ [CHR 0x0A]))) =
              Inr [0, 0, 1, 0, 2, 17, 34, 202]"
    by (simp add: rstrip_crlf_def hex_digit_def)
  have l3: "a2b_hex (rstrip_crlf (drop 1 ('':00000100021122CB'' @ [CHR 0x0A]))) =
              Inr [0, 0, 1, 0, 2, 17, 34, 203]"
    by (simp add: rstrip_crlf_def hex_digit_def)
  show ?thesis
    using parse_exact_length_lines [OF h, of
        "['':0100000000FF'' @ [CHR 0x0D, CHR 0x0A], '':00000100021122CA'' @ [CHR 0x0A]]"]
      parse_exact_length_lines [OF h, of
        "['':0100000000FF'' @ [CHR 0x0D, CHR 0x0A], '':00000100021122CB'' @ [CHR 0x0A]]"]
      l1 l2 l3
    by (simp add: well_formed_line_def checksum_matches_def line_bytes_def spec_row_def
        declared_length_def)
qed

section \<open>The packet checksum\<close>

text \<open>
  Claim C5. For every byte sequence the packet checksum is the two's-complement negation of
  the sum of the bytes modulo 65536: it lies between 0 and 65535 and the sum plus the
  checksum is 0 modulo 65536. In a packet built from a payload of at most 57 bytes the
  checksum covers the start marker, the command, the two length bytes and the payload, and
  is stored low byte first, followed by the end marker.
\<close>

theorem packet_checksum:
  "0 \<le> Bootloader_checksum bs \<and> Bootloader_checksum bs \<le> 65535
   \<and> (sum_list bs + Bootloader_checksum bs) mod 65536 = 0
   \<and> Bootloader_checksum bs = (- sum_list bs) mod 65536
   \<and> (length data \<le> 57 \<longrightarrow>
        (let covered = [0x01, command, int (length data), 0] @ data;
             c = Bootloader_checksum covered
         in make_packet command data = Inr (covered @ [c mod 256, c div 256, 0x17])
            \<and> c = c mod 256 + 256 * (c div 256) \<and> 0 \<le> c div 256 \<and> c div 256 < 256))"
proof -
  have m: "Bootloader_checksum xs = (- sum_list xs) mod 65536" for xs
    by (rule Bootloader_checksum_mod)
  have r: "0 \<le> Bootloader_checksum xs \<and> Bootloader_checksum xs \<le> 65535" for xs
    by (simp add: m) 
  have z: "(sum_list bs + Bootloader_checksum bs) mod 65536 = 0"
    by (simp add: m mod_add_right_eq)
  have p: "length data \<le> 57 \<longrightarrow>
        (let covered = [0x01, command, int (length data), 0] @ data;
             c = Bootloader_checksum covered
         in make_packet command data = Inr (covered @ [c mod 256, c div 256, 0x17])
            \<and> c = c mod 256 + 256 * (c div 256) \<and> 0 \<le> c div 256 \<and> c div 256 < 256)"
  proof
    assume len: "length data \<le> 57"
    then have l: "int (length data) mod 256 = int (length data)" "int (length data) div 256 = 0"
      by simp_all
    have b: "Bootloader_checksum ([0x01, command, int (length data), 0] @ data) div 256 < 256"
      using r [of "[0x01, command, int (length data), 0] @ data"] by linarith
    have b0: "0 \<le> Bootloader_checksum ([0x01, command, int (length data), 0] @ data) div 256"
      using r [of "[0x01, command, int (length data), 0] @ data"] by (simp add: pos_imp_zdiv_nonneg_iff)
    show "(let covered = [0x01, command, int (length data), 0] @ data;
             c = Bootloader_checksum covered
         in make_packet command data = Inr (covered @ [c mod 256, c div 256, 0x17])
            \<and> c = c mod 256 + 256 * (c div 256) \<and> 0 \<le> c div 256 \<and> c div 256 < 256)"
      using len b b0 by (simp add: make_packet_def Let_def and_ff drop_bit_8 l)
  qed
  show ?thesis using r [of bs] z m [of bs] p by blast
qed

theorem packet_checksum_witness:
  "length [0x0a, 0x0b :: int] \<le> 57
   \<and> Bootloader_checksum [1, 2, 3] = 65530
   \<and> make_packet 0x37 [0x0a, 0x0b] = Inr [0x01, 0x37, 2, 0, 0x0a, 0x0b, 0xb1, 0xff, 0x17]"
  using packet_checksum [of "[1, 2, 3]" "[0x0a, 0x0b]" "0x37"]
  by (simp add: Let_def Bootloader_checksum_mod)

section \<open>Status codes outside the table\<close>

text \<open>
  Claim C1 says that a frame whose status byte is not one of the eleven codes of the status
  table is decoded without raising and classified as the generic unknown outcome. The
  code looks the status byte up with \<open>STATUSES[...]\<close>: on the well-formed frame with status
  0x06, no payload and a valid checksum, decoding raises \<open>KeyError\<close> and returns no response.
\<close>

theorem parse_response_KeyError:
  "parse_response [0x01, 0x06, 0x00, 0x00, 0xf9, 0xff, 0x17] = Inl (KeyError 0x06)
   \<and> Bootloader_checksum [0x01, 0x06, 0x00, 0x00] = 0xfff9"
  by (simp add: parse_response_def py_index_def STATUSES_def Bootloader_checksum_mod)

text \<open>
  Claim C4 says that decoding the frame built from any command byte and any payload of at
  most 57 bytes succeeds. The second byte of a frame is decoded as a status code, so for
  the command 0x38 with no payload, which is not a key of the status table, decoding the
  encoded frame raises \<open>KeyError\<close> (the defect of claim C1). For the eleven codes of the
  table the round trip holds (\<open>codec_roundtrip\<close>).
\<close>

theorem roundtrip_KeyError:
  "make_packet 0x38 [] = Inr [0x01, 0x38, 0x00, 0x00, 0xc7, 0xff, 0x17]
   \<and> parse_response [0x01, 0x38, 0x00, 0x00, 0xc7, 0xff, 0x17] = Inl (KeyError 0x38)"
  by (simp add: make_packet_ok parse_response_def py_index_def STATUSES_def Bootloader_checksum_mod)

section \<open>The result of a command\<close>

text \<open>
  Claim C9. Whatever response the device gives, \<open>erase_row\<close>, \<open>send_data\<close> and
  \<open>program_row\<close> return \<open>True\<close> exactly when the decoded response has a valid checksum
  and the status \<open>CYRET_SUCCESS\<close>; a success status with an invalid checksum, or a valid
  checksum with another status, gives \<open>False\<close>. (The payload bounds are those under which
  the packet can be built at all.)
\<close>

theorem command_result:
  assumes "pending (device s) = frame # rest"
      and "parse_response (take 64 frame) = Inr r"
  shows "returned (erase_row s a n) = Inr (checksum_ok r \<and> status r = ''CYRET_SUCCESS'')
       \<and> (length d \<le> 57 \<longrightarrow>
            returned (send_data s d) = Inr (checksum_ok r \<and> status r = ''CYRET_SUCCESS''))
       \<and> (length d \<le> 54 \<longrightarrow>
            returned (program_row s a n d) = Inr (checksum_ok r \<and> status r = ''CYRET_SUCCESS''))"
proof -
  have e: "returned (erase_row s a n) = Inr (checksum_ok r \<and> status r = ''CYRET_SUCCESS'')"
  proof -
    obtain s' where "send_command s 0x34 [a, n AND 0xff, drop_bit 8 n] = Inr (r, s')"
      using send_command_answer [OF _ assms, of "[a, n AND 0xff, drop_bit 8 n]" "0x34"] by auto
    then show ?thesis by (simp add: erase_row_def returned_def)
  qed
  have sd: "returned (send_data s d) = Inr (checksum_ok r \<and> status r = ''CYRET_SUCCESS'')"
    if len: "length d \<le> 57"
  proof -
    obtain s' where "send_command s 0x37 d = Inr (r, s')"
      using send_command_answer [OF len assms, of "0x37"] by auto
    then show ?thesis by (simp add: send_data_def returned_def)
  qed
  have pr: "returned (program_row s a n d) = Inr (checksum_ok r \<and> status r = ''CYRET_SUCCESS'')"
    if "length d \<le> 54"
  proof -
    have "length ([a, n AND 0xff, drop_bit 8 n] @ d) \<le> 57" using that by simp
    from send_command_answer [OF this assms, of "0x39"]
    obtain s' where "send_command s 0x39 ([a, n AND 0xff, drop_bit 8 n] @ d) = Inr (r, s')"
      by auto
    then show ?thesis by (simp add: program_row_def returned_def)
  qed
  show ?thesis using e sd pr by blast
qed

theorem command_result_witness:
  "returned (erase_row (Bootloader_init \<lparr>written = [], pending = [[0x01, 0x00, 0, 0, 0xff, 0xff, 0x17]]\<rparr>) 1 2) = Inr True
   \<and> returned (send_data (Bootloader_init \<lparr>written = [], pending = [[0x01, 0x00, 0, 0, 0xfe, 0xff, 0x17]]\<rparr>) [1, 2, 3]) = Inr False
   \<and> returned (program_row (Bootloader_init \<lparr>written = [], pending = [[0x01, 0x08, 0, 0, 0xf7, 0xff, 0x17]]\<rparr>) 1 2 [9]) = Inr False"
  using command_result [of "Bootloader_init \<lparr>written = [], pending = [[0x01, 0x00, 0, 0, 0xff, 0xff, 0x17]]\<rparr>"
           "[0x01, 0x00, 0, 0, 0xff, 0xff, 0x17]" "[]"
           "\<lparr>status = ''CYRET_SUCCESS'', payload = [], checksum_ok = True\<rparr>" 1 2 "[]"]
        command_result [of "Bootloader_init \<lparr>written = [], pending = [[0x01, 0x00, 0, 0, 0xfe, 0xff, 0x17]]\<rparr>"
           "[0x01, 0x00, 0, 0, 0xfe, 0xff, 0x17]" "[]"
           "\<lparr>status = ''CYRET_SUCCESS'', payload = [], checksum_ok = False\<rparr>" 1 2 "[1, 2, 3]"]
        command_result [of "Bootloader_init \<lparr>written = [], pending = [[0x01, 0x08, 0, 0, 0xf7, 0xff, 0x17]]\<rparr>"
           "[0x01, 0x08, 0, 0, 0xf7, 0xff, 0x17]" "[]"
           "\<lparr>status = ''BOOTLOADER_ERR_CHECKSUM'', payload = [], checksum_ok = True\<rparr>" 1 2 "[9]"]
  by (simp add: Bootloader_init_def example_frames)

section \<open>Entering the bootloader\<close>

text \<open>
  Claim C6. When the response to \<open>enter_bootloader\<close> has a valid checksum, the status
  \<open>CYRET_SUCCESS\<close> and a payload of at least 8 bytes, the call returns \<open>True\<close> and sets
  the jtag id to the little-endian value of payload bytes 0 to 3, the device revision to
  byte 4 and the bootloader revision to bytes 7, 6, 5. A payload that starts with
  1, 2, 3, 4, 5, 6, 7, 8 gives the jtag id 0x04030201, the device revision 5 and the
  bootloader revision 8, 7, 6.
\<close>

theorem enter_bootloader_identity:
  assumes "pending (device s) = frame # rest"
      and "parse_response (take 64 frame) = Inr r"
      and "checksum_ok r" and "status r = ''CYRET_SUCCESS''"
      and "8 \<le> length (payload r)"
      and "\<forall>b \<in> set (take 3 (payload r)). 0 \<le> b \<and> b < 256"
  shows "enter_bootloader s =
           Inr (True,
                \<lparr>device = \<lparr>written = written (device s) @ [[0x01, 0x38, 0x00, 0x00, 0xc7, 0xff, 0x17]],
                           pending = rest\<rparr>,
                 jtag_id = Some (payload r ! 0 + 256 * payload r ! 1 + 65536 * payload r ! 2
                                 + 16777216 * payload r ! 3),
                 device_revision = Some (payload r ! 4),
                 bootloader_revision = Some [payload r ! 7, payload r ! 6, payload r ! 5]\<rparr>)
         \<and> (take 8 (payload r) = [0x01, 0x02, 0x03, 0x04, 0x05, 0x06, 0x07, 0x08] \<longrightarrow>
              returned (enter_bootloader s) = Inr True
              \<and> (\<forall>s'. enter_bootloader s = Inr (True, s') \<longrightarrow>
                    jtag_id s' = Some 0x04030201 \<and> device_revision s' = Some 0x05
                    \<and> bootloader_revision s' = Some [0x08, 0x07, 0x06]))"
proof -
  let ?p = "payload r"
  have idx: "py_index ?p (int k) = Inr (?p ! k)" if "k < 8" for k
    using that assms(5) by (intro py_index_nat) simp
  have i: "py_index ?p 0 = Inr (?p ! 0)" "py_index ?p 1 = Inr (?p ! 1)"
    "py_index ?p 2 = Inr (?p ! 2)" "py_index ?p 3 = Inr (?p ! 3)" "py_index ?p 4 = Inr (?p ! 4)"
    using idx [of 0] idx [of 1] idx [of 2] idx [of 3] idx [of 4] by simp_all
  have b: "0 \<le> ?p ! k \<and> ?p ! k < 256" if "k < 3" for k
  proof -
    have "k < length (take 3 ?p)" using that assms(5) by simp
    then have "take 3 ?p ! k \<in> set (take 3 ?p)" by (rule nth_mem)
    then have "?p ! k \<in> set (take 3 ?p)" using that by simp
    then show ?thesis using assms(6) by blast
  qed
  have sc: "send_command s 0x38 [] =
              Inr (r, s\<lparr>device := (device s)\<lparr>written := written (device s)
                                                  @ [[0x01, 0x38, 0x00, 0x00, 0xc7, 0xff, 0x17]],
                                              pending := rest\<rparr>\<rparr>)"
    using send_command_exchange [OF make_packet_enter assms(1)] assms(2) by simp
  have main: "enter_bootloader s =
           Inr (True,
                \<lparr>device = \<lparr>written = written (device s) @ [[0x01, 0x38, 0x00, 0x00, 0xc7, 0xff, 0x17]],
                           pending = rest\<rparr>,
                 jtag_id = Some (?p ! 0 + 256 * ?p ! 1 + 65536 * ?p ! 2 + 16777216 * ?p ! 3),
                 device_revision = Some (?p ! 4),
                 bootloader_revision = Some [?p ! 7, ?p ! 6, ?p ! 5]\<rparr>)"
    using b [of 0] b [of 1] b [of 2] assms(3,4)
    by (simp add: enter_bootloader_def sc i little_endian_32 py_slice_5_8 [OF assms(5)])
  have ex: "returned (enter_bootloader s) = Inr True
              \<and> (\<forall>s'. enter_bootloader s = Inr (True, s') \<longrightarrow>
                    jtag_id s' = Some 0x04030201 \<and> device_revision s' = Some 0x05
                    \<and> bootloader_revision s' = Some [0x08, 0x07, 0x06])"
    if t: "take 8 ?p = [0x01, 0x02, 0x03, 0x04, 0x05, 0x06, 0x07, 0x08]"
  proof -
    have n: "?p ! k = [0x01, 0x02, 0x03, 0x04, 0x05, 0x06, 0x07, 0x08] ! k" if "k < 8" for k
      using nth_take [OF that, of ?p] t by simp
    show ?thesis
      using n [of 0] n [of 1] n [of 2] n [of 3] n [of 4] n [of 5] n [of 6] n [of 7]
      by (simp add: main returned_def)
  qed
  show ?thesis using main ex by blast
qed

theorem enter_bootloader_identity_witness:
  "enter_bootloader
     (Bootloader_init \<lparr>written = [],
        pending = [[0x01, 0x00, 8, 0, 1, 2, 3, 4, 5, 6, 7, 8, 0xd3, 0xff, 0x17]]\<rparr>) =
   Inr (True,
        \<lparr>device = \<lparr>written = [[0x01, 0x38, 0x00, 0x00, 0xc7, 0xff, 0x17]], pending = []\<rparr>,
         jtag_id = Some 0x04030201,
         device_revision = Some 0x05,
         bootloader_revision = Some [0x08, 0x07, 0x06]\<rparr>)"
  using enter_bootloader_identity
    [of "Bootloader_init \<lparr>written = [],
           pending = [[0x01, 0x00, 8, 0, 1, 2, 3, 4, 5, 6, 7, 8, 0xd3, 0xff, 0x17]]\<rparr>"
        "[0x01, 0x00, 8, 0, 1, 2, 3, 4, 5, 6, 7, 8, 0xd3, 0xff, 0x17]" "[]"
        "\<lparr>status = ''CYRET_SUCCESS'', payload = [1, 2, 3, 4, 5, 6, 7, 8], checksum_ok = True\<rparr>"]
  by (simp add: Bootloader_init_def example_enter_frame)

text \<open>
  Claim C7. When the response to \<open>enter_bootloader\<close> has an invalid checksum or a status
  other than \<open>CYRET_SUCCESS\<close>, the call returns \<open>False\<close> and only the transport has
  changed: the jtag id, the device revision and the bootloader revision are what they were
  (\<open>None\<close> on a fresh object).
\<close>

theorem enter_bootloader_failure:
  assumes "pending (device s) = frame # rest"
      and "parse_response (take 64 frame) = Inr r"
      and "\<not> checksum_ok r \<or> status r \<noteq> ''CYRET_SUCCESS''"
  shows "enter_bootloader s =
           Inr (False,
                s\<lparr>device := (device s)\<lparr>written := written (device s)
                                             @ [[0x01, 0x38, 0x00, 0x00, 0xc7, 0xff, 0x17]],
                                         pending := rest\<rparr>\<rparr>)
         \<and> (\<forall>s'. enter_bootloader s = Inr (False, s') \<longrightarrow>
               jtag_id s' = jtag_id s
               \<and> device_revision s' = device_revision s
               \<and> bootloader_revision s' = bootloader_revision s)"
proof -
  have sc: "send_command s 0x38 [] =
              Inr (r, s\<lparr>device := (device s)\<lparr>written := written (device s)
                                                  @ [[0x01, 0x38, 0x00, 0x00, 0xc7, 0xff, 0x17]],
                                              pending := rest\<rparr>\<rparr>)"
    using send_command_exchange [OF make_packet_enter assms(1)] assms(2) by simp
  show ?thesis
    using assms(3) by (auto simp: enter_bootloader_def sc)
qed

theorem enter_bootloader_failure_witness:
  "enter_bootloader
     (Bootloader_init \<lparr>written = [], pending = [[0x01, 0x00, 0, 0, 0xfe, 0xff, 0x17]]\<rparr>) =
   Inr (False,
        \<lparr>device = \<lparr>written = [[0x01, 0x38, 0x00, 0x00, 0xc7, 0xff, 0x17]], pending = []\<rparr>,
         jtag_id = None, device_revision = None, bootloader_revision = None\<rparr>)"
  using enter_bootloader_failure
    [of "Bootloader_init \<lparr>written = [], pending = [[0x01, 0x00, 0, 0, 0xfe, 0xff, 0x17]]\<rparr>"
        "[0x01, 0x00, 0, 0, 0xfe, 0xff, 0x17]" "[]"
        "\<lparr>status = ''CYRET_SUCCESS'', payload = [], checksum_ok = False\<rparr>"]
  by (simp add: Bootloader_init_def example_frames)

section \<open>Leaving the bootloader\<close>

text \<open>
  Claim C3 says that after \<open>exit_bootloader\<close> every further command fails without writing
  or reading. The class keeps no phase: on a fresh object whose device has one success frame
  pending, \<open>exit_bootloader\<close> followed by \<open>erase_row 1 2\<close> writes the erase packet, reads
  the frame and returns \<open>True\<close>.
\<close>

theorem exit_then_command_counterexample:
  "exit_bootloader
     (Bootloader_init \<lparr>written = [], pending = [[0x01, 0x00, 0, 0, 0xff, 0xff, 0x17]]\<rparr>) =
     Inr (Bootloader_init \<lparr>written = [[0x01, 0x3b, 0x00, 0x00, 0xc4, 0xff, 0x17]],
                           pending = [[0x01, 0x00, 0, 0, 0xff, 0xff, 0x17]]\<rparr>)
   \<and> erase_row
        (Bootloader_init \<lparr>written = [[0x01, 0x3b, 0x00, 0x00, 0xc4, 0xff, 0x17]],
                           pending = [[0x01, 0x00, 0, 0, 0xff, 0xff, 0x17]]\<rparr>) 1 2 =
     Inr (True,
          Bootloader_init \<lparr>written = [[0x01, 0x3b, 0x00, 0x00, 0xc4, 0xff, 0x17],
                                       [0x01, 0x34, 3, 0, 1, 2, 0, 0xc5, 0xff, 0x17]],
                           pending = []\<rparr>)"
proof -
  have p: "make_packet 0x34 [1, 2 AND 0xff, drop_bit 8 2] = Inr [0x01, 0x34, 3, 0, 1, 2, 0, 0xc5, 0xff, 0x17]"
    by (simp add: make_packet_ok Bootloader_checksum_mod and_ff drop_bit_8)
  show ?thesis
    using send_command_exchange [OF p, of
        "Bootloader_init \<lparr>written = [[0x01, 0x3b, 0x00, 0x00, 0xc4, 0xff, 0x17]],
                           pending = [[0x01, 0x00, 0, 0, 0xff, 0xff, 0x17]]\<rparr>"
        "[0x01, 0x00, 0, 0, 0xff, 0xff, 0x17]" "[]"]
    by (simp add: exit_bootloader_def make_packet_exit hid_write_def Bootloader_init_def
          erase_row_def example_frames)
qed

text \<open>
  Claim C3, amended. \<open>exit_bootloader\<close> writes the single exit packet (command 0x3b, no
  payload), reads nothing and leaves the identity fields and the pending frames as they
  were; a command sent afterwards still encodes its packet, writes it and reads and decodes
  the next frame.
\<close>

theorem exit_bootloader_writes_only:
  "exit_bootloader s =
     Inr (s\<lparr>device := (device s)\<lparr>written := written (device s)
                                      @ [[0x01, 0x3b, 0x00, 0x00, 0xc4, 0xff, 0x17]]\<rparr>\<rparr>)
   \<and> (\<forall>s' packet frame rest.
         exit_bootloader s = Inr s' \<and> make_packet command data = Inr packet
         \<and> pending (device s) = frame # rest \<longrightarrow>
         pending (device s') = frame # rest
         \<and> jtag_id s' = jtag_id s \<and> device_revision s' = device_revision s
         \<and> bootloader_revision s' = bootloader_revision s
         \<and> send_command s' command data =
             err_bind (parse_response (take 64 frame)) (\<lambda>r.
               Inr (r, s'\<lparr>device := (device s')\<lparr>written := written (device s') @ [packet],
                                                 pending := rest\<rparr>\<rparr>)))"
proof -
  have e: "exit_bootloader s =
     Inr (s\<lparr>device := (device s)\<lparr>written := written (device s)
                                      @ [[0x01, 0x3b, 0x00, 0x00, 0xc4, 0xff, 0x17]]\<rparr>\<rparr>)"
    by (simp add: exit_bootloader_def make_packet_exit hid_write_def)
  show ?thesis
    unfolding e using send_command_exchange by auto
qed

theorem exit_bootloader_writes_only_witness:
  "send_command
     (Bootloader_init \<lparr>written = [[0x01, 0x3b, 0x00, 0x00, 0xc4, 0xff, 0x17]],
                        pending = [[0x01, 0x00, 0, 0, 0xff, 0xff, 0x17]]\<rparr>) 0x37 [] =
   Inr (\<lparr>status = ''CYRET_SUCCESS'', payload = [], checksum_ok = True\<rparr>,
        Bootloader_init \<lparr>written = [[0x01, 0x3b, 0x00, 0x00, 0xc4, 0xff, 0x17],
                                     [0x01, 0x37, 0, 0, 0xc8, 0xff, 0x17]],
                         pending = []\<rparr>)"
proof -
  have p: "make_packet 0x37 [] = Inr [0x01, 0x37, 0, 0, 0xc8, 0xff, 0x17]"
    by (simp add: make_packet_ok Bootloader_checksum_mod)
  show ?thesis
    using exit_bootloader_writes_only
      [of "Bootloader_init \<lparr>written = [], pending = [[0x01, 0x00, 0, 0, 0xff, 0xff, 0x17]]\<rparr>"
          "0x37" "[]"] p
    by (simp add: Bootloader_init_def example_frames)
qed

section \<open>Splitting a row into packets\<close>

text \<open>
  Claim C2. With \<open>MAX_DATA_LENGTH = 48\<close>, the flashing loop issues for every row, in the
  order of the image, the \<open>send_data\<close> calls for consecutive 48-byte slices of the data and
  then exactly one \<open>program_row\<close>, which is the last call of the row: no \<open>send_data\<close> when
  the data is shorter than 48 bytes, \<open>len div 48\<close> of them and a final chunk of
  \<open>len mod 48\<close> bytes when that remainder is positive, and \<open>len div 48 - 1\<close> of them and a
  final chunk of 48 bytes when the length is a positive multiple of 48. The chunks of a row
  concatenate to its data, and the session carries out exactly these calls in this order.
  Lengths 48, 96, 100 and 1 give 0, 1, 2 and 0 \<open>send_data\<close> calls.
\<close>

theorem flash_row_splitting:
  "flash_calls rows = Inr (concat (map spec_row_calls rows))
   \<and> flash s rows = for_each (issue send_data program_row) s (concat (map spec_row_calls rows))
   \<and> flash_calls [(a, r, data)] =
        Inr (map (\<lambda>i. SendData (take 48 (drop (48 * i) data))) [0..<spec_send_count (length data)]
             @ [ProgramRow a r (drop (48 * spec_send_count (length data)) data)])
   \<and> (\<forall>i < spec_send_count (length data). length (take 48 (drop (48 * i) data)) = 48)
   \<and> length (drop (48 * spec_send_count (length data)) data) =
        (if length data < 48 then length data
         else if length data mod 48 > 0 then length data mod 48 else 48)
   \<and> concat (map (\<lambda>i. take 48 (drop (48 * i) data)) [0..<spec_send_count (length data)])
        @ drop (48 * spec_send_count (length data)) data = data
   \<and> spec_send_count 48 = 0 \<and> spec_send_count 96 = 1
   \<and> spec_send_count 100 = 2 \<and> spec_send_count 1 = 0"
proof -
  have one: "flash_calls [(a, r, data)] =
        Inr (map (\<lambda>i. SendData (take 48 (drop (48 * i) data))) [0..<spec_send_count (length data)]
             @ [ProgramRow a r (drop (48 * spec_send_count (length data)) data)])"
    by (simp add: flash_calls_eq spec_row_calls_def spec_chunk_def)
  have len: "\<forall>i < spec_send_count (length data). length (take 48 (drop (48 * i) data)) = 48"
    using spec_chunk_length [of _ data] by (simp add: spec_chunk_def)
  have cat: "concat (map (\<lambda>i. take 48 (drop (48 * i) data)) [0..<spec_send_count (length data)])
        @ drop (48 * spec_send_count (length data)) data = data"
    using concat_chunks [of data "spec_send_count (length data)"]
    by (simp add: spec_chunk_def [abs_def])
  have ex: "spec_send_count 48 = 0 \<and> spec_send_count 96 = 1
   \<and> spec_send_count 100 = 2 \<and> spec_send_count 1 = 0"
    by (simp add: spec_send_count_def)
  show ?thesis
    using one len cat ex spec_last_length [of data]
    by (simp add: flash_calls_eq flash_def flash_with_issue)
qed

theorem flash_row_splitting_witness:
  "flash_calls [(1, 2, replicate 48 7)] = Inr [ProgramRow 1 2 (replicate 48 7)]
   \<and> flash_calls [(1, 2, replicate 96 7)] =
        Inr [SendData (replicate 48 7), ProgramRow 1 2 (replicate 48 7)]
   \<and> flash_calls [(1, 2, replicate 100 7)] =
        Inr [SendData (replicate 48 7), SendData (replicate 48 7), ProgramRow 1 2 (replicate 4 7)]
   \<and> flash_calls [(1, 2, [7])] = Inr [ProgramRow 1 2 [7]]
   \<and> flash_calls [(1, 2, [7]), (1, 3, replicate 96 8)] =
        Inr [ProgramRow 1 2 [7], SendData (replicate 48 8), ProgramRow 1 3 (replicate 48 8)]
   \<and> (1::nat) < spec_send_count (length (replicate 100 (7::int)))
   \<and> length (take 48 (drop (48 * 1) (replicate 100 (7::int)))) = 48"
proof -
  have u: "[0..<2] = [0, Suc 0]" "[0..<1] = [0]" by (simp_all add: upt_rec)
  show ?thesis
    using flash_row_splitting [of "[(1, 2, replicate 48 7)]" _ 1 2 "replicate 48 7"]
      flash_row_splitting [of "[(1, 2, replicate 96 7)]" _ 1 2 "replicate 96 7"]
      flash_row_splitting [of "[(1, 2, replicate 100 7)]" _ 1 2 "replicate 100 7"]
      flash_row_splitting [of "[(1, 2, [7])]" _ 1 2 "[7]"]
      flash_row_splitting [of "[(1, 2, [7]), (1, 3, replicate 96 8)]" _ 1 2 "[7]"]
    by (simp add: spec_send_count_def spec_row_calls_def spec_chunk_def u)
qed

text \<open>
  Claim C10. Every call of the flashing loop hands \<open>send_command\<close> a payload of at most 57
  bytes (at most 48 for \<open>send_data\<close>, at most 3 + 48 for \<open>program_row\<close>), so the length
  assertion of \<open>make_packet\<close> never fails while flashing, whatever the rows are.
\<close>

theorem flash_payload_bound:
  "(\<exists>calls. flash_calls rows = Inr calls)
   \<and> (\<forall>calls c. flash_calls rows = Inr calls \<and> c \<in> set calls \<longrightarrow>
         length (call_payload c) \<le> 57
         \<and> make_packet (call_command c) (call_payload c) \<noteq> Inl (AssertionError PayloadLength)
         \<and> (case c of SendData chunk \<Rightarrow> length (call_payload c) \<le> 48
             | ProgramRow a r chunk \<Rightarrow> length (call_payload c) \<le> 3 + 48))
   \<and> flash s rows \<noteq> Inl (AssertionError PayloadLength)"
proof -
  let ?calls = "concat (map spec_row_calls rows)"
  have b: "case c of SendData chunk \<Rightarrow> length chunk = 48 \<and> length (call_payload c) = 48
         | ProgramRow a r chunk \<Rightarrow> length chunk \<le> 48 \<and> length (call_payload c) \<le> 51"
    if "c \<in> set ?calls" for c
    using that spec_row_calls_payload by auto
  have l: "length (call_payload c) \<le> 57" if "c \<in> set ?calls" for c
    using b [OF that] by (cases c) simp_all
  have m: "make_packet (call_command c) (call_payload c) \<noteq> Inl (AssertionError PayloadLength)"
    if "c \<in> set ?calls" for c
    using make_packet_Inr [OF l [OF that], of "call_command c"] by auto
  have k: "case c of SendData chunk \<Rightarrow> length (call_payload c) \<le> 48
             | ProgramRow a r chunk \<Rightarrow> length (call_payload c) \<le> 3 + 48"
    if "c \<in> set ?calls" for c
    using b [OF that] by (cases c) simp_all
  have f: "flash s rows \<noteq> Inl (AssertionError PayloadLength)"
    unfolding flash_def flash_with_issue
  proof (rule for_each_never)
    fix s c assume "c \<in> set ?calls"
    from send_command_not_PayloadLength [OF l [OF this]]
    show "issue send_data program_row s c \<noteq> Inl (AssertionError PayloadLength)"
      by (simp add: issue_send_command)
  qed
  show ?thesis using l m k f by (simp add: flash_calls_eq)
qed

theorem flash_payload_bound_witness:
  "flash_calls [(1, 2, replicate 100 7)] =
     Inr [SendData (replicate 48 7), SendData (replicate 48 7), ProgramRow 1 2 (replicate 4 7)]
   \<and> ProgramRow 1 2 (replicate 4 7)
        \<in> set [SendData (replicate 48 7), SendData (replicate 48 7), ProgramRow 1 2 (replicate 4 7)]
   \<and> length (call_payload (ProgramRow 1 2 (replicate 4 7))) \<le> 57
   \<and> flash (Bootloader_init \<lparr>written = [], pending = []\<rparr>) [(1, 2, replicate 100 7)]
        \<noteq> Inl (AssertionError PayloadLength)"
proof -
  have u: "[0..<2] = [0, Suc 0]" by (simp add: upt_rec)
  have c: "flash_calls [(1, 2, replicate 100 7)] =
     Inr [SendData (replicate 48 7), SendData (replicate 48 7), ProgramRow 1 2 (replicate 4 7)]"
    by (simp add: flash_calls_eq spec_send_count_def spec_row_calls_def spec_chunk_def u)
  show ?thesis
    using flash_payload_bound [of "[(1, 2, replicate 100 7)]"
        "Bootloader_init \<lparr>written = [], pending = []\<rparr>"]
    by (simp add: c)
qed

section \<open>The checksum of a firmware line\<close>

text \<open>
  Claim C8 says that \<open>parse\<close> fails whenever the trailing checksum byte of a decoded line
  differs from the 8-bit two's-complement negation of the sum of the bytes before it, and
  succeeds when every line matches. The code reads the checksum at the position the line
  declares (\<open>line[5 + data_length]\<close>) but sums \<open>line[:-1]\<close>, all bytes but the last,
  where \<open>_parse_response\<close> sums exactly the bytes before the position it reads. The two
  disagree on a line that is longer than it declares, in both directions.
  The line \<open>:0200000000FF00\<close> declares no data: its last byte 0x00 is not the checksum
  0xFF of the bytes before it, and the byte 0xFF after the declared data is not the checksum
  0xFE of the five bytes before it, yet \<open>parse\<close> accepts the file and returns the row.
  The line \<open>:0100000000FF00\<close> declares no data: its last byte 0x00 is the checksum of the
  bytes before it, and the byte 0xFF after the declared data is the checksum of the five
  bytes before it, yet \<open>parse\<close> fails with the checksum assertion.
\<close>

theorem parse_checksum_position_slip:
  "parse [''0001020304AA'', '':0200000000FF00''] =
     Inr \<lparr>silicon_id = 0x00010203, silicon_revision = 0x04, checksum_type = 0xAA,
          firmware = [(0x02, 0, [])]\<rparr>
   \<and> line_bytes '':0200000000FF00'' = [0x02, 0x00, 0x00, 0x00, 0x00, 0xFF, 0x00]
   \<and> \<not> checksum_matches '':0200000000FF00''
   \<and> [0x02, 0x00, 0x00, 0x00, 0x00, 0xFF, 0x00] ! 5
        \<noteq> (- sum_list (take 5 [0x02, 0x00, 0x00, 0x00, 0x00, 0xFF, 0x00 :: int])) mod 256
   \<and> parse [''0001020304AA'', '':0100000000FF00''] = Inl (AssertionError LineChecksum)
   \<and> line_bytes '':0100000000FF00'' = [0x01, 0x00, 0x00, 0x00, 0x00, 0xFF, 0x00]
   \<and> checksum_matches '':0100000000FF00''
   \<and> [0x01, 0x00, 0x00, 0x00, 0x00, 0xFF, 0x00] ! 5
        = (- sum_list (take 5 [0x01, 0x00, 0x00, 0x00, 0x00, 0xFF, 0x00 :: int])) mod 256"
proof -
  have h: "a2b_hex (rstrip_crlf ''0001020304AA'') = Inr [0, 1, 2, 3, 4, 170]"
    by (simp add: rstrip_crlf_def hex_digit_def)
  have l: "a2b_hex (rstrip_crlf (drop 1 '':0200000000FF00'')) = Inr [2, 0, 0, 0, 0, 255, 0]"
    by (simp add: rstrip_crlf_def hex_digit_def)
  have p: "parse_line [] '':0200000000FF00'' = Inr [(2, 0, [])]"
    using l
    by (simp add: parse_line_def py_index_def py_slice_def py_bound_def Cyacd_checksum_mod)
  have accepted: "parse [''0001020304AA'', '':0200000000FF00''] =
     Inr \<lparr>silicon_id = 0x00010203, silicon_revision = 0x04, checksum_type = 0xAA,
          firmware = [(0x02, 0, [])]\<rparr>"
    using h p by (simp add: parse_def py_index_def)
  have bad: "line_bytes '':0200000000FF00'' = [0x02, 0x00, 0x00, 0x00, 0x00, 0xFF, 0x00]"
    "\<not> checksum_matches '':0200000000FF00''"
    using l by (simp_all add: line_bytes_def checksum_matches_def)
  have l': "a2b_hex (rstrip_crlf (drop 1 '':0100000000FF00'')) = Inr [1, 0, 0, 0, 0, 255, 0]"
    by (simp add: rstrip_crlf_def hex_digit_def)
  have p': "parse_line [] '':0100000000FF00'' = Inl (AssertionError LineChecksum)"
    using l'
    by (simp add: parse_line_def py_index_def py_slice_def py_bound_def Cyacd_checksum_mod)
  have rejected: "parse [''0001020304AA'', '':0100000000FF00''] =
     Inl (AssertionError LineChecksum)"
    using h p' by (simp add: parse_def py_index_def)
  have good: "line_bytes '':0100000000FF00'' = [0x01, 0x00, 0x00, 0x00, 0x00, 0xFF, 0x00]"
    "checksum_matches '':0100000000FF00''"
    using l' by (simp_all add: line_bytes_def checksum_matches_def)
  show ?thesis
    using accepted bad rejected good by simp
qed

end
